theory Spec2Isabelle
  imports Main "HOL-Library.Word"
begin

section \<open>RebuildingLogEnumerator (logdevice/server/RebuildingLogEnumerator.cpp)\<close>

text \<open>
  The enumerator lists the logs to rebuild for one failed shard. Its five member functions
  (\<open>start\<close>, \<open>putStorageTask\<close>, \<open>onMetaDataLogsStorageTaskDone\<close>,
  \<open>onMetaDataLogsStorageTaskDropped\<close>, \<open>finalize\<close>) are embedded as functions from the
  object's state to the new state and the list of effects the call performs, in order.
  A failed \<open>ld_check\<close> or \<open>ld_assert\<close> is a value of type \<open>failure\<close>.

  Timestamps (\<open>RecordTimestamp\<close>) and durations (\<open>std::chrono\<close>) are integers counting
  milliseconds; C++ leaves signed overflow undefined, so the model covers the runs without it.
\<close>

type_synonym logid_t = "64 word"
type_synonym lsn_t = "64 word"
type_synonym RecordTimestamp = int
type_synonym duration = int

text \<open>\<open>it->second.log_group->attrs().backlogDuration().value()\<close> is an optional duration; a log
  of the logs configuration is its id with that attribute, and the configuration iterates a
  map keyed by log id.\<close>

record LocalLogsConfig =
  isLocal :: bool
  isFullyLoaded :: bool
  logs :: "(logid_t \<times> duration option) list"

record RebuildingSettings =
  disable_data_log_rebuilding :: bool
  use_legacy_log_to_shard_mapping_in_rebuilding :: bool

text \<open>The functions of other translation units that the enumerator calls:
  \<open>configuration::InternalLogs::isInternal\<close>, \<open>MetaDataLog::isMetaDataLog\<close> and
  \<open>getLegacyShardIndexForLog\<close> (LegacyLogToShard.h). Their bodies are not part of this file,
  so they are parameters of the model.\<close>

record externals =
  isInternal :: "logid_t \<Rightarrow> bool"
  isMetaDataLog :: "logid_t \<Rightarrow> bool"
  getLegacyShardIndexForLog :: "logid_t \<Rightarrow> nat \<Rightarrow> nat"

text \<open>The members of the class that the translation unit reads or writes. \<open>result_\<close> is a map
  from log id to timestamp; it is kept as an association list in insertion order, and every
  insertion goes through \<open>emplace\<close>, which leaves an existing key alone as
  \<open>std::map::emplace\<close> does.\<close>

record RebuildingLogEnumerator =
  config :: LocalLogsConfig
  rebuilding_settings :: RebuildingSettings
  rebuild_internal_logs :: bool
  rebuild_metadata_logs :: bool
  num_shards :: nat
  shard_idx :: nat
  version :: lsn_t
  min_timestamp :: RecordTimestamp
  result :: "(logid_t \<times> RecordTimestamp) list"
  maxBacklogDuration :: duration
  finalize_called :: bool

datatype failure = CheckFailed | AssertFailed

datatype Status = OK | Err nat

datatype effect =
    LogInfo "32 word" "32 word" nat
  | RatelimitError nat nat
  | RatelimitWarning nat nat
  | PutStorageTask nat nat
  | OnLogsEnumerated nat lsn_t "(logid_t \<times> RecordTimestamp) list" duration

definition emplace :: "'k \<Rightarrow> 'v \<Rightarrow> ('k \<times> 'v) list \<Rightarrow> ('k \<times> 'v) list" where
  "emplace k v m = (if k \<in> fst ` set m then m else m @ [(k, v)])"

text \<open>\<open>RecordTimestamp::min()\<close> is the least value of the 64-bit millisecond count, and
  \<open>storeMax\<close> raises a timestamp to at least its argument.\<close>

definition RecordTimestamp_min :: RecordTimestamp where
  "RecordTimestamp_min = - (2 ^ 63)"

definition storeMax :: "RecordTimestamp \<Rightarrow> RecordTimestamp \<Rightarrow> RecordTimestamp" where
  "storeMax next_ts t = (if next_ts < t then t else next_ts)"

text \<open>One iteration of the loop of \<open>start\<close> over the logs configuration. The loop state is the
  object together with the two local counters \<open>internalSkipped\<close> and \<open>dataSkipped\<close>
  (\<open>uint32_t\<close>).\<close>

type_synonym loop_state = "RebuildingLogEnumerator \<times> 32 word \<times> 32 word"

definition start_body ::
  "externals \<Rightarrow> RecordTimestamp \<Rightarrow> logid_t \<times> duration option \<Rightarrow> loop_state
     \<Rightarrow> failure + loop_state" where
  "start_body ext cur_timestamp it s =
     (case s of (e, internalSkipped, dataSkipped) \<Rightarrow>
        let logid = fst it; backlog = snd it in
        if \<not> rebuild_internal_logs e \<and> isInternal ext logid
        then Inr (e, internalSkipped + 1, dataSkipped)
        else if disable_data_log_rebuilding (rebuilding_settings e)
                \<and> \<not> isMetaDataLog ext logid \<and> backlog \<noteq> None
        then Inr (e\<lparr>maxBacklogDuration :=
                      (if the backlog > maxBacklogDuration e then the backlog
                       else maxBacklogDuration e)\<rparr>,
                  internalSkipped, dataSkipped + 1)
        else
          let next_ts = (case backlog of None \<Rightarrow> RecordTimestamp_min
                                       | Some b \<Rightarrow> cur_timestamp - b);
              next_ts = storeMax next_ts (min_timestamp e)
          in if getLegacyShardIndexForLog ext logid (num_shards e) = shard_idx e
                \<or> \<not> use_legacy_log_to_shard_mapping_in_rebuilding (rebuilding_settings e)
             then (if logid \<in> fst ` set (result e) then Inl AssertFailed
                   else Inr (e\<lparr>result := emplace logid next_ts (result e)\<rparr>,
                             internalSkipped, dataSkipped))
             else Inr (e, internalSkipped, dataSkipped))"

fun start_loop ::
  "externals \<Rightarrow> RecordTimestamp \<Rightarrow> (logid_t \<times> duration option) list \<Rightarrow> loop_state
     \<Rightarrow> failure + loop_state" where
  "start_loop ext cur_timestamp [] s = Inr s"
| "start_loop ext cur_timestamp (it # its) s =
     (case start_body ext cur_timestamp it s of
        Inl f \<Rightarrow> Inl f
      | Inr s' \<Rightarrow> start_loop ext cur_timestamp its s')"

definition putStorageTask :: "RebuildingLogEnumerator \<Rightarrow> effect list" where
  "putStorageTask e = [PutStorageTask (shard_idx e) (num_shards e)]"

text \<open>\<open>finalize\<close> hands \<open>result_\<close> and \<open>maxBacklogDuration_\<close> to the callback. The
  mapping is passed as \<open>std::move(result_)\<close>: the callback owns it from then on and the
  member is left empty, so the mapping is read from the \<open>OnLogsEnumerated\<close> effect and not
  from the object, which may be destroyed by the callback.\<close>

definition finalize ::
  "RebuildingLogEnumerator \<Rightarrow> failure + RebuildingLogEnumerator \<times> effect list" where
  "finalize e =
     (if finalize_called e then Inl CheckFailed
      else Inr (e\<lparr>finalize_called := True, result := []\<rparr>,
                [OnLogsEnumerated (shard_idx e) (version e) (result e) (maxBacklogDuration e)]))"

definition start ::
  "externals \<Rightarrow> RecordTimestamp \<Rightarrow> RebuildingLogEnumerator
     \<Rightarrow> failure + RebuildingLogEnumerator \<times> effect list" where
  "start ext cur_timestamp e =
     (if \<not> isLocal (config e) then Inl CheckFailed
      else if \<not> isFullyLoaded (config e) then Inl CheckFailed
      else case start_loop ext cur_timestamp (logs (config e)) (e, 0, 0) of
             Inl f \<Rightarrow> Inl f
           | Inr (e', internalSkipped, dataSkipped) \<Rightarrow>
               let info = LogInfo internalSkipped dataSkipped (length (result e')) in
               if rebuild_metadata_logs e' then Inr (e', info # putStorageTask e')
               else (case finalize e' of
                       Inl f \<Rightarrow> Inl f
                     | Inr (e'', effs) \<Rightarrow> Inr (e'', info # effs)))"

fun emplace_all ::
  "logid_t list \<Rightarrow> RecordTimestamp \<Rightarrow> (logid_t \<times> RecordTimestamp) list
     \<Rightarrow> (logid_t \<times> RecordTimestamp) list" where
  "emplace_all [] t m = m"
| "emplace_all (l # ls) t m = emplace_all ls t (emplace l t m)"

definition onMetaDataLogsStorageTaskDone ::
  "Status \<Rightarrow> logid_t list \<Rightarrow> RebuildingLogEnumerator
     \<Rightarrow> failure + RebuildingLogEnumerator \<times> effect list" where
  "onMetaDataLogsStorageTaskDone st log_ids e =
     (if st \<noteq> OK then Inr (e, RatelimitError 10 1 # putStorageTask e)
      else case finalize (e\<lparr>result := emplace_all log_ids (min_timestamp e) (result e)\<rparr>) of
             Inl f \<Rightarrow> Inl f
           | Inr (e', effs) \<Rightarrow> Inr (e', effs))"

definition onMetaDataLogsStorageTaskDropped ::
  "RebuildingLogEnumerator \<Rightarrow> failure + RebuildingLogEnumerator \<times> effect list" where
  "onMetaDataLogsStorageTaskDropped e = Inr (e, RatelimitWarning 10 1 # putStorageTask e)"

section \<open>The enumerator's decisions, named\<close>

text \<open>The three tests of the loop body of \<open>start\<close>, as predicates on a log of the
  configuration: the log is skipped as an internal log, skipped as a data log, or passes the
  legacy log-to-shard test. A log is enumerated when it is not skipped and passes that test.
  \<open>next_ts_of\<close> is the timestamp the loop computes and \<open>track_max\<close> the update of
  \<open>maxBacklogDuration_\<close> by a skipped data log.\<close>

definition skips_internal :: "externals \<Rightarrow> RebuildingLogEnumerator \<Rightarrow> logid_t \<Rightarrow> bool" where
  "skips_internal ext e logid = (\<not> rebuild_internal_logs e \<and> isInternal ext logid)"

definition skips_data ::
  "externals \<Rightarrow> RebuildingLogEnumerator \<Rightarrow> logid_t \<times> duration option \<Rightarrow> bool" where
  "skips_data ext e it =
     (\<not> skips_internal ext e (fst it) \<and> disable_data_log_rebuilding (rebuilding_settings e)
      \<and> \<not> isMetaDataLog ext (fst it) \<and> snd it \<noteq> None)"

definition legacy_match :: "externals \<Rightarrow> RebuildingLogEnumerator \<Rightarrow> logid_t \<Rightarrow> bool" where
  "legacy_match ext e logid =
     (getLegacyShardIndexForLog ext logid (num_shards e) = shard_idx e
      \<or> \<not> use_legacy_log_to_shard_mapping_in_rebuilding (rebuilding_settings e))"

definition enumerated ::
  "externals \<Rightarrow> RebuildingLogEnumerator \<Rightarrow> logid_t \<times> duration option \<Rightarrow> bool" where
  "enumerated ext e it =
     (\<not> skips_internal ext e (fst it) \<and> \<not> skips_data ext e it \<and> legacy_match ext e (fst it))"

definition next_ts_of ::
  "RecordTimestamp \<Rightarrow> RebuildingLogEnumerator \<Rightarrow> duration option \<Rightarrow> RecordTimestamp" where
  "next_ts_of cur e backlog =
     (case backlog of None \<Rightarrow> max RecordTimestamp_min (min_timestamp e)
                    | Some b \<Rightarrow> max (min_timestamp e) (cur - b))"

definition track_max :: "logid_t \<times> duration option \<Rightarrow> duration \<Rightarrow> duration" where
  "track_max it m = (if the (snd it) > m then the (snd it) else m)"

text \<open>The arguments of the completion callback \<open>onLogsEnumerated\<close> among a list of effects:
  the mapping from log id to timestamp and the largest backlog duration.\<close>

definition callbacks :: "effect list \<Rightarrow> ((logid_t \<times> RecordTimestamp) list \<times> duration) list" where
  "callbacks effs =
     concat (map (\<lambda>x. case x of OnLogsEnumerated s v r m \<Rightarrow> [(r, m)] | _ \<Rightarrow> []) effs)"

text \<open>A complete enumeration: \<open>start\<close>, and, when \<open>start\<close> has put the storage task for the
  metadata logs, the answer of that task with status \<open>E::OK\<close> and the log ids \<open>log_ids\<close>.\<close>

definition enumerate ::
  "externals \<Rightarrow> RecordTimestamp \<Rightarrow> logid_t list \<Rightarrow> RebuildingLogEnumerator
     \<Rightarrow> failure + RebuildingLogEnumerator \<times> effect list" where
  "enumerate ext cur_timestamp log_ids e =
     (case start ext cur_timestamp e of
        Inl f \<Rightarrow> Inl f
      | Inr (e', effs) \<Rightarrow>
          if rebuild_metadata_logs e'
          then (case onMetaDataLogsStorageTaskDone OK log_ids e' of
                  Inl f \<Rightarrow> Inl f
                | Inr (e'', effs') \<Rightarrow> Inr (e'', effs @ effs'))
          else Inr (e', effs))"

text \<open>What the loop of \<open>start\<close> leaves in \<open>result_\<close> and in \<open>maxBacklogDuration_\<close>, in closed
  form (lemma \<open>start_loop_closed\<close> proves it of the loop).\<close>

definition loop_result ::
  "externals \<Rightarrow> RecordTimestamp \<Rightarrow> RebuildingLogEnumerator \<Rightarrow> (logid_t \<times> RecordTimestamp) list" where
  "loop_result ext cur e =
     map (\<lambda>it. (fst it, next_ts_of cur e (snd it))) (filter (enumerated ext e) (logs (config e)))"

definition loop_maxBacklog :: "externals \<Rightarrow> RebuildingLogEnumerator \<Rightarrow> duration" where
  "loop_maxBacklog ext e =
     fold track_max (filter (skips_data ext e) (logs (config e))) (maxBacklogDuration e)"

text \<open>The state in which \<open>start\<close> is called: the logs configuration is local and fully loaded,
  its log ids are distinct (it is a map keyed by log id), \<open>result_\<close> is empty and
  \<open>finalize\<close> has not run.\<close>

definition well_formed :: "RebuildingLogEnumerator \<Rightarrow> bool" where
  "well_formed e =
     (isLocal (config e) \<and> isFullyLoaded (config e) \<and> distinct (map fst (logs (config e)))
      \<and> result e = [] \<and> \<not> finalize_called e)"

section \<open>The storage task queue, as the enumerator sees it\<close>

text \<open>\<open>putStorageTask\<close> hands a \<open>RebuildingEnumerateMetadataLogsTask\<close> to the queue of the
  shard; the queue answers each task once, with \<open>onMetaDataLogsStorageTaskDone\<close> or with
  \<open>onMetaDataLogsStorageTaskDropped\<close>. \<open>run_tasks\<close> feeds the enumerator a list of such
  answers: the next answer is delivered only if the previous call put a task again.
  \<open>enumerate\<close> above is the run in which the first task succeeds.

  The file has no timer and no delay: a retry is the call of \<open>putStorageTask\<close> inside the
  handler of the failure, so the list of effects of a run shows every retry where it happens.\<close>

datatype task_outcome = TaskDone Status "logid_t list" | TaskDropped

fun deliver ::
  "task_outcome \<Rightarrow> RebuildingLogEnumerator \<Rightarrow> failure + RebuildingLogEnumerator \<times> effect list" where
  "deliver (TaskDone st log_ids) e = onMetaDataLogsStorageTaskDone st log_ids e"
| "deliver TaskDropped e = onMetaDataLogsStorageTaskDropped e"

fun run_tasks ::
  "task_outcome list \<Rightarrow> RebuildingLogEnumerator
     \<Rightarrow> failure + RebuildingLogEnumerator \<times> effect list" where
  "run_tasks [] e = Inr (e, [])"
| "run_tasks (out # outs) e =
     (case deliver out e of
        Inl f \<Rightarrow> Inl f
      | Inr (e', effs) \<Rightarrow>
          if PutStorageTask (shard_idx e') (num_shards e') \<in> set effs
          then (case run_tasks outs e' of
                  Inl f \<Rightarrow> Inl f
                | Inr (e'', effs') \<Rightarrow> Inr (e'', effs @ effs'))
          else Inr (e', effs))"

fun task_failed :: "task_outcome \<Rightarrow> bool" where
  "task_failed (TaskDone st log_ids) = (st \<noteq> OK)"
| "task_failed TaskDropped = True"

text \<open>What one failed or dropped task makes the enumerator do: one rate-limited log line
  (at most 1 message per 10 seconds) and the task put again, in the same call.\<close>

fun retry_effects :: "RebuildingLogEnumerator \<Rightarrow> task_outcome \<Rightarrow> effect list" where
  "retry_effects e (TaskDone st log_ids) =
     [RatelimitError 10 1, PutStorageTask (shard_idx e) (num_shards e)]"
| "retry_effects e TaskDropped =
     [RatelimitWarning 10 1, PutStorageTask (shard_idx e) (num_shards e)]"

section \<open>A small configuration\<close>

text \<open>Four logs: log 1 keeps its records forever, logs 2 and 3 have a backlog of one hour
  and one day, log 9 is an internal log and log 8 would be a metadata log. Two shards, the
  legacy mapping sends a log to its id modulo the number of shards.\<close>

definition ext_example :: externals where
  "ext_example = \<lparr>isInternal = (\<lambda>l. l = 9), isMetaDataLog = (\<lambda>l. l = 8),
                   getLegacyShardIndexForLog = (\<lambda>l n. unat l mod n)\<rparr>"

definition enum_example :: RebuildingLogEnumerator where
  "enum_example =
     \<lparr>config = \<lparr>isLocal = True, isFullyLoaded = True,
                 logs = [(1, None), (2, Some 3600000), (3, Some 86400000), (9, None)]\<rparr>,
      rebuilding_settings = \<lparr>disable_data_log_rebuilding = True,
                              use_legacy_log_to_shard_mapping_in_rebuilding = False\<rparr>,
      rebuild_internal_logs = False, rebuild_metadata_logs = False,
      num_shards = 2, shard_idx = 0, version = 5, min_timestamp = 0,
      result = [], maxBacklogDuration = 0, finalize_called = False\<rparr>"

definition enum_legacy :: RebuildingLogEnumerator where
  "enum_legacy =
     enum_example\<lparr>rebuilding_settings := \<lparr>disable_data_log_rebuilding = False,
                                            use_legacy_log_to_shard_mapping_in_rebuilding = True\<rparr>,
                  rebuild_metadata_logs := True\<rparr>"

section \<open>Rebuilding supervisor: the trigger queue threshold\<close>









section \<open>Properties of the enumerator\<close>

lemma preds_update [simp]:
  "skips_internal ext (e\<lparr>result := r, maxBacklogDuration := m\<rparr>) = skips_internal ext e"
  "skips_data ext (e\<lparr>result := r, maxBacklogDuration := m\<rparr>) = skips_data ext e"
  "legacy_match ext (e\<lparr>result := r, maxBacklogDuration := m\<rparr>) = legacy_match ext e"
  "enumerated ext (e\<lparr>result := r, maxBacklogDuration := m\<rparr>) = enumerated ext e"
  "next_ts_of cur (e\<lparr>result := r, maxBacklogDuration := m\<rparr>) = next_ts_of cur e"
  by (auto simp: skips_internal_def skips_data_def legacy_match_def enumerated_def next_ts_of_def fun_eq_iff split: option.splits)

lemma start_body_closed:
  assumes "fst it \<notin> fst ` set r"
  shows "start_body ext cur it (e\<lparr>result := r, maxBacklogDuration := m\<rparr>, i, d) =
     Inr (e\<lparr>result := (if enumerated ext e it then r @ [(fst it, next_ts_of cur e (snd it))] else r),
            maxBacklogDuration := (if skips_data ext e it then track_max it m else m)\<rparr>,
          (if skips_internal ext e (fst it) then i + 1 else i),
          (if skips_data ext e it then d + 1 else d))"
  using assms
  by (auto simp: start_body_def skips_internal_def skips_data_def legacy_match_def enumerated_def
      next_ts_of_def track_max_def emplace_def storeMax_def Let_def max_def split: option.splits)

lemma start_loop_closed:
  assumes "distinct (map fst its)" "fst ` set its \<inter> fst ` set r = {}"
  shows "start_loop ext cur its (e\<lparr>result := r, maxBacklogDuration := m\<rparr>, i, d) =
     Inr (e\<lparr>result := r @ map (\<lambda>it. (fst it, next_ts_of cur e (snd it))) (filter (enumerated ext e) its),
            maxBacklogDuration := fold track_max (filter (skips_data ext e) its) m\<rparr>,
          i + of_nat (length (filter (\<lambda>it. skips_internal ext e (fst it)) its)),
          d + of_nat (length (filter (skips_data ext e) its)))"
  using assms
proof (induction its arbitrary: r m i d)
  case Nil
  then show ?case by simp
next
  case (Cons it its)
  have a: "fst it \<notin> fst ` set r" using Cons.prems by auto
  let ?r = "if enumerated ext e it then r @ [(fst it, next_ts_of cur e (snd it))] else r"
  have b: "fst ` set its \<inter> fst ` set ?r = {}" using Cons.prems by (auto simp: image_iff)
  have c: "distinct (map fst its)" using Cons.prems by simp
  show ?case
    by (simp add: start_body_closed[OF a] Cons.IH[OF c b] add.assoc del: preds_update) 
qed

lemma start_loop_from:
  assumes "distinct (map fst (logs (config e)))" "result e = []"
  shows "start_loop ext cur (logs (config e)) (e, 0, 0) =
     Inr (e\<lparr>result := loop_result ext cur e, maxBacklogDuration := loop_maxBacklog ext e\<rparr>,
          of_nat (length (filter (\<lambda>it. skips_internal ext e (fst it)) (logs (config e)))),
          of_nat (length (filter (skips_data ext e) (logs (config e)))))"
proof -
  have e: "e\<lparr>result := [], maxBacklogDuration := maxBacklogDuration e\<rparr> = e"
    using assms(2) by simp
  have "fst ` set (logs (config e)) \<inter> fst ` set ([] :: (logid_t \<times> RecordTimestamp) list) = {}"
    by simp
  from start_loop_closed[OF assms(1) this, where ext = ext and cur = cur and e = e
      and m = "maxBacklogDuration e" and i = 0 and d = 0]
  show ?thesis unfolding e by (simp add: loop_result_def loop_maxBacklog_def)
qed

lemma start_closed:
  assumes "well_formed e"
  shows "start ext cur e =
     (let e' = e\<lparr>result := loop_result ext cur e, maxBacklogDuration := loop_maxBacklog ext e\<rparr>;
          info = LogInfo (of_nat (length (filter (\<lambda>it. skips_internal ext e (fst it)) (logs (config e)))))
                   (of_nat (length (filter (skips_data ext e) (logs (config e)))))
                   (length (loop_result ext cur e))
      in if rebuild_metadata_logs e then Inr (e', [info, PutStorageTask (shard_idx e) (num_shards e)])
         else Inr (e'\<lparr>finalize_called := True, result := []\<rparr>,
                   [info, OnLogsEnumerated (shard_idx e) (version e) (loop_result ext cur e)
                            (loop_maxBacklog ext e)]))"
  using assms
  by (simp add: start_def well_formed_def start_loop_from Let_def finalize_def putStorageTask_def)

lemma enumerate_closed:
  assumes "well_formed e"
  shows "\<exists>e' info. enumerate ext cur ids e =
           Inr (e', info @ [OnLogsEnumerated (shard_idx e) (version e)
               (if rebuild_metadata_logs e
                then emplace_all ids (min_timestamp e) (loop_result ext cur e)
                else loop_result ext cur e)
               (loop_maxBacklog ext e)])
         \<and> callbacks info = []"
  using assms
  by (cases "rebuild_metadata_logs e")
     (auto simp add: enumerate_def start_closed Let_def onMetaDataLogsStorageTaskDone_def finalize_def
      well_formed_def callbacks_def)

lemma keys_emplace: "fst ` set (emplace k v m) = insert k (fst ` set m)"
  by (auto simp: emplace_def)

lemma keys_emplace_all: "fst ` set (emplace_all ls t m) = set ls \<union> fst ` set m"
  by (induction ls arbitrary: m) (auto simp: keys_emplace)

lemma distinct_emplace: "distinct (map fst m) \<Longrightarrow> distinct (map fst (emplace k v m))"
  by (auto simp: emplace_def)

lemma distinct_emplace_all: "distinct (map fst m) \<Longrightarrow> distinct (map fst (emplace_all ls t m))"
  by (induction ls arbitrary: m) (auto simp: distinct_emplace)

lemma map_of_emplace:
  "map_of (emplace k v m) l =
     (case map_of m l of Some t \<Rightarrow> Some t | None \<Rightarrow> if l = k then Some v else None)"
proof (cases "k \<in> fst ` set m")
  case True
  then obtain t where "map_of m k = Some t"
    by (cases "map_of m k") (auto simp: map_of_eq_None_iff)
  with True show ?thesis by (auto simp: emplace_def split: option.splits)
next
  case False
  then have "map_of m k = None" by (simp add: map_of_eq_None_iff)
  with False show ?thesis
    by (auto simp: emplace_def map_add_def split: option.splits)
qed

lemma map_of_emplace_all:
  "map_of (emplace_all ls t m) l =
     (case map_of m l of Some u \<Rightarrow> Some u | None \<Rightarrow> if l \<in> set ls then Some t else None)"
  by (induction ls arbitrary: m) (auto simp: map_of_emplace split: option.splits)

lemma track_max_max: "track_max it m = max (the (snd it)) m"
  by (simp add: track_max_def max_def)

lemma fold_track_max:
  "fold track_max xs m = Max (insert m ((the \<circ> snd) ` set xs))"
proof (induction xs arbitrary: m)
  case Nil
  then show ?case by simp
next
  case (Cons x xs)
  let ?S = "(the \<circ> snd) ` set xs"
  have "fold track_max (x # xs) m = fold track_max xs (track_max x m)"
    by simp
  also have "\<dots> = Max (insert (track_max x m) ?S)"
    by (rule Cons.IH)
  also have "\<dots> = Max (insert (max (the (snd x)) m) ?S)"
    by (simp only: track_max_max)
  also have "\<dots> = Max (insert m (insert (the (snd x)) ?S))"
    by (cases "set xs = {}") (simp_all add: max.assoc max.commute max.left_commute)
  also have "\<dots> = Max (insert m ((the \<circ> snd) ` set (x # xs)))"
    by simp
  finally show ?case .
qed

lemma keys_loop_result:
  "fst ` set (loop_result ext cur e) = fst ` {it \<in> set (logs (config e)). enumerated ext e it}"
  by (auto simp: loop_result_def image_iff)

lemma distinct_loop_result:
  "distinct (map fst (logs (config e))) \<Longrightarrow> distinct (map fst (loop_result ext cur e))"
  by (simp add: loop_result_def comp_def distinct_map_filter)

lemma map_of_loop_result:
  assumes "distinct (map fst (logs (config e)))" "it \<in> set (logs (config e))" "enumerated ext e it"
  shows "map_of (loop_result ext cur e) (fst it) = Some (next_ts_of cur e (snd it))"
proof -
  have "(fst it, next_ts_of cur e (snd it)) \<in> set (loop_result ext cur e)"
    using assms(2,3) by (auto simp: loop_result_def)
  with distinct_loop_result[OF assms(1)] show ?thesis by simp
qed

lemma callbacks_append: "callbacks (xs @ ys) = callbacks xs @ callbacks ys"
  by (simp add: callbacks_def)

lemma callbacks_single [simp]: "callbacks [OnLogsEnumerated s v r m] = [(r, m)]"
  by (simp add: callbacks_def)

lemma enumerate_delivers:
  assumes "well_formed e"
  shows "\<exists>e' effs. enumerate ext cur ids e = Inr (e', effs) \<and>
     callbacks effs =
       [(if rebuild_metadata_logs e
         then emplace_all ids (min_timestamp e) (loop_result ext cur e)
         else loop_result ext cur e, loop_maxBacklog ext e)]"
proof -
  from enumerate_closed[OF assms, of ext cur ids] obtain e' info where
    "enumerate ext cur ids e =
           Inr (e', info @ [OnLogsEnumerated (shard_idx e) (version e)
               (if rebuild_metadata_logs e
                then emplace_all ids (min_timestamp e) (loop_result ext cur e)
                else loop_result ext cur e)
               (loop_maxBacklog ext e)])" and "callbacks info = []" by blast
  then show ?thesis by (simp add: callbacks_append)
qed

lemma not_enumerated_not_key:
  assumes "distinct (map fst (logs (config e)))" "it \<in> set (logs (config e))"
    "\<not> enumerated ext e it"
  shows "fst it \<notin> fst ` set (loop_result ext cur e)"
proof
  assume "fst it \<in> fst ` set (loop_result ext cur e)"
  then obtain it' where it': "it' \<in> set (logs (config e))" "enumerated ext e it'" "fst it' = fst it"
    by (auto simp: keys_loop_result)
  from assms(1) have "inj_on fst (set (logs (config e)))" by (simp add: distinct_map)
  with it' assms(2) have "it' = it" by (auto dest: inj_onD)
  with it' assms(3) show False by simp
qed

lemma enumerated_key:
  assumes "it \<in> set (logs (config e))" "enumerated ext e it"
  shows "fst it \<in> fst ` set (loop_result ext cur e)"
  using assms by (auto simp: keys_loop_result)

lemma emplace_all_new:
  "\<exists>new. emplace_all ls t m = m @ new
     \<and> (\<forall>x \<in> set new. fst x \<in> set ls \<and> snd x = t \<and> fst x \<notin> fst ` set m)"
proof (induction ls arbitrary: m)
  case Nil
  then show ?case by simp
next
  case (Cons l ls)
  from Cons.IH[of "emplace l t m"] obtain new where
    n: "emplace_all ls t (emplace l t m) = emplace l t m @ new"
       "\<forall>x \<in> set new. fst x \<in> set ls \<and> snd x = t \<and> fst x \<notin> fst ` set (emplace l t m)" by blast
  show ?case
  proof (cases "l \<in> fst ` set m")
    case True
    then have "emplace l t m = m" by (simp add: emplace_def)
    with n show ?thesis by auto
  next
    case False
    then have e: "emplace l t m = m @ [(l, t)]" by (simp add: emplace_def)
    have "emplace_all (l # ls) t m = m @ ((l, t) # new)" using n(1) e by simp
    moreover have "\<forall>x \<in> set ((l, t) # new). fst x \<in> set (l # ls) \<and> snd x = t \<and> fst x \<notin> fst ` set m"
      using n(2) False e by auto
    ultimately show ?thesis by blast
  qed
qed

lemma deliver_failed: "task_failed out \<Longrightarrow> deliver out e = Inr (e, retry_effects e out)"
  by (cases out)
     (simp_all add: onMetaDataLogsStorageTaskDone_def onMetaDataLogsStorageTaskDropped_def
        putStorageTask_def)

lemma put_in_retry_effects: "PutStorageTask (shard_idx e) (num_shards e) \<in> set (retry_effects e out)"
  by (cases out) simp_all

lemma callbacks_retry_effects: "callbacks (retry_effects e out) = []"
  by (cases out) (simp_all add: callbacks_def)

lemma callbacks_Nil [simp]: "callbacks [] = []"
  by (simp add: callbacks_def)

lemma callbacks_retries: "callbacks (concat (map (retry_effects e) outs)) = []"
  by (induction outs) (simp_all add: callbacks_append callbacks_retry_effects)

lemma deliver_ok:
  "\<not> finalize_called e \<Longrightarrow>
   deliver (TaskDone OK log_ids) e =
     Inr (e\<lparr>result := [], finalize_called := True\<rparr>,
          [OnLogsEnumerated (shard_idx e) (version e)
             (emplace_all log_ids (min_timestamp e) (result e)) (maxBacklogDuration e)])"
  by (simp add: onMetaDataLogsStorageTaskDone_def finalize_def)

lemma run_tasks_failed:
  "\<forall>out \<in> set outs. task_failed out \<Longrightarrow>
   run_tasks outs e = Inr (e, concat (map (retry_effects e) outs))"
  by (induction outs) (simp_all add: deliver_failed put_in_retry_effects)

lemma run_tasks_then_ok:
  "\<forall>out \<in> set outs. task_failed out \<Longrightarrow> \<not> finalize_called e \<Longrightarrow>
   run_tasks (outs @ [TaskDone OK log_ids]) e =
     Inr (e\<lparr>result := [], finalize_called := True\<rparr>,
          concat (map (retry_effects e) outs) @
          [OnLogsEnumerated (shard_idx e) (version e)
             (emplace_all log_ids (min_timestamp e) (result e)) (maxBacklogDuration e)])"
proof (induction outs)
  case Nil
  then show ?case by (simp add: deliver_ok del: deliver.simps)
next
  case (Cons out outs)
  then show ?case by (simp add: deliver_failed put_in_retry_effects)
qed

section \<open>The claims about the enumerator\<close>

text \<open>
  Claim C6 (as amended). When \<open>disable_data_log_rebuilding\<close> is set, the enumerator skips every
  log that is not a metadata log and has a backlog duration configured: such a log is never a
  key of the mapping handed to the completion callback. The duration handed to the callback is
  the maximum of the initial \<open>maxBacklogDuration_\<close> and the backlog durations of the logs
  skipped as data logs. A data log without a backlog duration is not skipped (see the
  counterexample below).
\<close>

theorem C6_skips_data_logs_with_backlog:
  assumes "well_formed e"
    and "disable_data_log_rebuilding (rebuilding_settings e)"
    and "\<forall>l \<in> set ids. isMetaDataLog ext l"
  shows "\<exists>e' effs r m. enumerate ext cur ids e = Inr (e', effs) \<and> callbacks effs = [(r, m)]
     \<and> (\<forall>it \<in> set (logs (config e)).
           \<not> isMetaDataLog ext (fst it) \<and> snd it \<noteq> None \<longrightarrow> fst it \<notin> fst ` set r)
     \<and> m = Max (insert (maxBacklogDuration e)
                  ((the \<circ> snd) ` {it \<in> set (logs (config e)). skips_data ext e it}))"
proof -
  let ?r = "if rebuild_metadata_logs e
         then emplace_all ids (min_timestamp e) (loop_result ext cur e)
         else loop_result ext cur e"
  from enumerate_delivers[OF assms(1), of ext cur ids] obtain e' effs where
    run: "enumerate ext cur ids e = Inr (e', effs)"
         "callbacks effs = [(?r, loop_maxBacklog ext e)]" by blast
  have d: "distinct (map fst (logs (config e)))" using assms(1) by (simp add: well_formed_def)
  have skip: "fst it \<notin> fst ` set ?r"
    if "it \<in> set (logs (config e))" "\<not> isMetaDataLog ext (fst it)" "snd it \<noteq> None" for it
  proof -
    have "\<not> enumerated ext e it"
      using that assms(2) by (auto simp: enumerated_def skips_data_def)
    from not_enumerated_not_key[OF d that(1) this]
    have "fst it \<notin> fst ` set (loop_result ext cur e)" .
    moreover have "fst it \<notin> set ids" using that(2) assms(3) by blast
    ultimately show ?thesis by (simp add: keys_emplace_all)
  qed
  have m: "loop_maxBacklog ext e = Max (insert (maxBacklogDuration e)
                  ((the \<circ> snd) ` {it \<in> set (logs (config e)). skips_data ext e it}))"
    by (simp add: loop_maxBacklog_def fold_track_max)
  from run skip m show ?thesis by blast
qed

text \<open>The theorem at the small configuration.\<close>

theorem C6_skips_data_logs_with_backlog_witness:
  "well_formed enum_example
   \<and> disable_data_log_rebuilding (rebuilding_settings enum_example)
   \<and> isMetaDataLog ext_example 8
   \<and> (\<exists>e' effs r m. enumerate ext_example 1000 [8] enum_example = Inr (e', effs)
         \<and> callbacks effs = [(r, m)]
         \<and> (\<forall>it \<in> set (logs (config enum_example)).
               \<not> isMetaDataLog ext_example (fst it) \<and> snd it \<noteq> None \<longrightarrow> fst it \<notin> fst ` set r)
         \<and> m = Max (insert (maxBacklogDuration enum_example)
                  ((the \<circ> snd) ` {it \<in> set (logs (config enum_example)).
                                     skips_data ext_example enum_example it})))"
proof -
  have h1: "well_formed enum_example" by (simp add: well_formed_def enum_example_def)
  have h2: "disable_data_log_rebuilding (rebuilding_settings enum_example)"
    by (simp add: enum_example_def)
  have h3: "\<forall>l \<in> set [8]. isMetaDataLog ext_example l" by (simp add: ext_example_def)
  have h4: "isMetaDataLog ext_example 8" by (simp add: ext_example_def)
  from C6_skips_data_logs_with_backlog[OF h1 h2 h3, of 1000] h1 h2 h4 show ?thesis by blast
qed

text \<open>
  The claim as written says that every data log is skipped. Log 1 of the small configuration is
  a data log with no backlog duration; with \<open>disable_data_log_rebuilding\<close> set it is still
  handed to the callback, with timestamp \<open>max RecordTimestamp_min 0 = 0\<close>, while logs 2 and 3
  are skipped and the larger backlog, one day, is reported.
\<close>

theorem C6_data_log_without_backlog_counterexample:
  "disable_data_log_rebuilding (rebuilding_settings enum_example)
   \<and> \<not> isMetaDataLog ext_example 1 \<and> \<not> isInternal ext_example 1
   \<and> (1, None) \<in> set (logs (config enum_example))
   \<and> (case enumerate ext_example 1000 [] enum_example of
         Inl f \<Rightarrow> []
       | Inr (e', effs) \<Rightarrow> callbacks effs) = [([(1, 0)], 86400000)]"
  by (simp add: enumerate_def start_def start_body_def enum_example_def ext_example_def
      finalize_def callbacks_def emplace_def storeMax_def RecordTimestamp_min_def Let_def)

text \<open>
  Claim C7 (as amended). When the storage task fails or is dropped, the enumerator logs one
  rate-limited line and puts the task again in the same call, without any delay and however
  many times the task has failed before; the state of the enumerator does not change and the
  completion callback is not invoked. The callback is invoked once the task succeeds.
\<close>

theorem C7_retries_at_once:
  assumes "\<forall>out \<in> set outs. task_failed out" and "\<not> finalize_called e"
  shows "run_tasks outs e = Inr (e, concat (map (retry_effects e) outs))
     \<and> callbacks (concat (map (retry_effects e) outs)) = []
     \<and> (\<exists>e'. run_tasks (outs @ [TaskDone OK log_ids]) e =
               Inr (e', concat (map (retry_effects e) outs) @
                        [OnLogsEnumerated (shard_idx e) (version e)
                           (emplace_all log_ids (min_timestamp e) (result e))
                           (maxBacklogDuration e)]))"
  using run_tasks_failed[OF assms(1)] run_tasks_then_ok[OF assms] callbacks_retries
  by blast

text \<open>The theorem at the small configuration.\<close>

theorem C7_retries_at_once_witness:
  "task_failed (TaskDone (Err 1) []) \<and> task_failed TaskDropped
   \<and> \<not> finalize_called enum_legacy
   \<and> run_tasks [TaskDone (Err 1) [], TaskDropped] enum_legacy =
       Inr (enum_legacy, [RatelimitError 10 1, PutStorageTask 0 2,
                          RatelimitWarning 10 1, PutStorageTask 0 2])
   \<and> (\<exists>e'. run_tasks ([TaskDone (Err 1) [], TaskDropped] @ [TaskDone OK [8]]) enum_legacy =
             Inr (e', [RatelimitError 10 1, PutStorageTask 0 2,
                       RatelimitWarning 10 1, PutStorageTask 0 2,
                       OnLogsEnumerated 0 5 [(8, 0)] 0]))"
proof -
  have h1: "\<forall>out \<in> set [TaskDone (Err 1) [], TaskDropped]. task_failed out" by simp
  have h2: "\<not> finalize_called enum_legacy" by (simp add: enum_legacy_def enum_example_def)
  from C7_retries_at_once[OF h1 h2, of "[8]"] h1 h2 show ?thesis
    by (simp add: enum_legacy_def enum_example_def emplace_def)
qed

text \<open>
  The claim as written speaks of an exponential backoff capped at 10 seconds. Three failures in
  a row are answered by three tasks put at once; the 10 seconds are the period of the
  rate-limited log line, not a delay of the retry.
\<close>

theorem C7_backoff_counterexample:
  "run_tasks [TaskDone (Err 1) [], TaskDone (Err 1) [], TaskDone (Err 1) []] enum_legacy =
     Inr (enum_legacy, [RatelimitError 10 1, PutStorageTask 0 2,
                        RatelimitError 10 1, PutStorageTask 0 2,
                        RatelimitError 10 1, PutStorageTask 0 2])"
  by (simp add: enum_legacy_def enum_example_def onMetaDataLogsStorageTaskDone_def
      putStorageTask_def)

text \<open>
  Claim C8. For every log the enumerator retains, the timestamp in the mapping handed to the
  callback is \<open>max min_timestamp (now - backlog)\<close> when the log has a backlog duration, and
  \<open>RecordTimestamp::min()\<close> raised to at least \<open>min_timestamp\<close> when it has none.
\<close>

theorem C8_next_timestamp:
  assumes "well_formed e"
    and "it \<in> set (logs (config e))"
    and "enumerated ext e it"
  shows "\<exists>e' effs r m. enumerate ext cur ids e = Inr (e', effs) \<and> callbacks effs = [(r, m)]
     \<and> map_of r (fst it) =
         Some (case snd it of
                 Some backlog \<Rightarrow> max (min_timestamp e) (cur - backlog)
               | None \<Rightarrow> max RecordTimestamp_min (min_timestamp e))"
proof -
  let ?r = "if rebuild_metadata_logs e
         then emplace_all ids (min_timestamp e) (loop_result ext cur e)
         else loop_result ext cur e"
  from enumerate_delivers[OF assms(1), of ext cur ids] obtain e' effs where
    run: "enumerate ext cur ids e = Inr (e', effs)"
         "callbacks effs = [(?r, loop_maxBacklog ext e)]" by blast
  have d: "distinct (map fst (logs (config e)))" using assms(1) by (simp add: well_formed_def)
  have "map_of (loop_result ext cur e) (fst it) = Some (next_ts_of cur e (snd it))"
    by (rule map_of_loop_result[OF d assms(2,3)])
  then have "map_of ?r (fst it) = Some (next_ts_of cur e (snd it))"
    by (simp add: map_of_emplace_all)
  then have "map_of ?r (fst it) =
         Some (case snd it of
                 Some backlog \<Rightarrow> max (min_timestamp e) (cur - backlog)
               | None \<Rightarrow> max RecordTimestamp_min (min_timestamp e))"
    by (simp add: next_ts_of_def)
  with run show ?thesis by blast
qed

text \<open>The theorem at the small configuration.\<close>

theorem C8_next_timestamp_witness:
  "well_formed enum_legacy
   \<and> (2, Some 3600000) \<in> set (logs (config enum_legacy))
   \<and> enumerated ext_example enum_legacy (2, Some 3600000)
   \<and> (\<exists>e' effs r m. enumerate ext_example 5000000 [8] enum_legacy = Inr (e', effs)
         \<and> callbacks effs = [(r, m)]
         \<and> map_of r 2 = Some 1400000)"
proof -
  have h1: "well_formed enum_legacy"
    by (simp add: well_formed_def enum_legacy_def enum_example_def)
  have h2: "(2, Some 3600000) \<in> set (logs (config enum_legacy))"
    by (simp add: enum_legacy_def enum_example_def)
  have h3: "enumerated ext_example enum_legacy (2, Some 3600000)"
    by (simp add: enumerated_def skips_internal_def skips_data_def legacy_match_def
        enum_legacy_def enum_example_def ext_example_def)
  have m: "min_timestamp enum_legacy = 0" by (simp add: enum_legacy_def enum_example_def)
  from C8_next_timestamp[OF h1 h2 h3, of 5000000 "[8]"] h1 h2 h3 show ?thesis
    by (simp add: m)
qed

text \<open>
  Claim C9. A log of the configuration that is not skipped is a key of the mapping handed to
  the completion callback exactly when \<open>use_legacy_log_to_shard_mapping_in_rebuilding\<close> is
  false or the legacy mapping of the log is the shard being rebuilt; no check or assertion
  fails on the way, and each log id is a key of that mapping at most once. (When metadata logs
  are rebuilt, the ids returned by the storage task are added to the mapping as well, so the
  equivalence is stated for the logs that are not among them; it holds for every log of the
  configuration when the task returns none.)
\<close>

theorem C9_legacy_shard_mapping:
  assumes "well_formed e"
  shows "\<exists>e' effs r m. enumerate ext cur ids e = Inr (e', effs) \<and> callbacks effs = [(r, m)]
     \<and> (\<forall>it \<in> set (logs (config e)).
           \<not> skips_internal ext e (fst it) \<and> \<not> skips_data ext e it
           \<and> (rebuild_metadata_logs e \<longrightarrow> fst it \<notin> set ids) \<longrightarrow>
           (fst it \<in> fst ` set r \<longleftrightarrow>
              (\<not> use_legacy_log_to_shard_mapping_in_rebuilding (rebuilding_settings e)
               \<or> getLegacyShardIndexForLog ext (fst it) (num_shards e) = shard_idx e)))
     \<and> distinct (map fst r)"
proof -
  let ?r = "if rebuild_metadata_logs e
         then emplace_all ids (min_timestamp e) (loop_result ext cur e)
         else loop_result ext cur e"
  from enumerate_delivers[OF assms(1), of ext cur ids] obtain e' effs where
    run: "enumerate ext cur ids e = Inr (e', effs)"
         "callbacks effs = [(?r, loop_maxBacklog ext e)]" by blast
  have d: "distinct (map fst (logs (config e)))" using assms(1) by (simp add: well_formed_def)
  have iff: "fst it \<in> fst ` set ?r \<longleftrightarrow>
              (\<not> use_legacy_log_to_shard_mapping_in_rebuilding (rebuilding_settings e)
               \<or> getLegacyShardIndexForLog ext (fst it) (num_shards e) = shard_idx e)"
    if "it \<in> set (logs (config e))" "\<not> skips_internal ext e (fst it)" "\<not> skips_data ext e it"
      "rebuild_metadata_logs e \<longrightarrow> fst it \<notin> set ids" for it
  proof -
    have k: "fst it \<in> fst ` set ?r \<longleftrightarrow> fst it \<in> fst ` set (loop_result ext cur e)"
      using that(4) by (simp add: keys_emplace_all)
    show ?thesis
    proof (cases "enumerated ext e it")
      case True
      from enumerated_key[OF that(1) True] True show ?thesis
        unfolding k by (auto simp: enumerated_def legacy_match_def)
    next
      case False
      from not_enumerated_not_key[OF d that(1) False] False that(2,3) show ?thesis
        unfolding k by (auto simp: enumerated_def legacy_match_def)
    qed
  qed
  have dist: "distinct (map fst ?r)"
    by (simp add: distinct_loop_result[OF d] distinct_emplace_all)
  from run iff dist show ?thesis by blast
qed

text \<open>The theorem at the small configuration with the legacy mapping on and shard 0 of 2
  rebuilt: of the logs 1, 2 and 3, only log 2 is mapped to shard 0, and the storage task adds
  the metadata log 8.\<close>

theorem C9_legacy_shard_mapping_witness:
  "well_formed enum_legacy
   \<and> (\<exists>e' effs r m. enumerate ext_example 5000000 [8] enum_legacy = Inr (e', effs)
         \<and> callbacks effs = [(r, m)]
         \<and> 2 \<in> fst ` set r \<and> 1 \<notin> fst ` set r \<and> 3 \<notin> fst ` set r
         \<and> distinct (map fst r))"
proof -
  have h1: "well_formed enum_legacy"
    by (simp add: well_formed_def enum_legacy_def enum_example_def)
  have l: "logs (config enum_legacy) = [(1, None), (2, Some 3600000), (3, Some 86400000), (9, None)]"
    by (simp add: enum_legacy_def enum_example_def)
  from C9_legacy_shard_mapping[OF h1, of ext_example 5000000 "[8]"] obtain e' effs r m where
    run: "enumerate ext_example 5000000 [8] enum_legacy = Inr (e', effs)"
      "callbacks effs = [(r, m)]" "distinct (map fst r)"
    and iff: "\<forall>it \<in> set (logs (config enum_legacy)).
           \<not> skips_internal ext_example enum_legacy (fst it)
           \<and> \<not> skips_data ext_example enum_legacy it
           \<and> (rebuild_metadata_logs enum_legacy \<longrightarrow> fst it \<notin> set [8]) \<longrightarrow>
           (fst it \<in> fst ` set r \<longleftrightarrow>
              (\<not> use_legacy_log_to_shard_mapping_in_rebuilding (rebuilding_settings enum_legacy)
               \<or> getLegacyShardIndexForLog ext_example (fst it) (num_shards enum_legacy)
                    = shard_idx enum_legacy))"
    by blast
  from iff have "2 \<in> fst ` set r" "1 \<notin> fst ` set r" "3 \<notin> fst ` set r"
    unfolding l
    by (simp_all add: skips_internal_def skips_data_def enum_legacy_def enum_example_def
        ext_example_def)
  with run h1 show ?thesis by blast
qed

text \<open>
  Claim C10. When the storage task succeeds, every log id it returns that is not yet in the
  result is added with timestamp \<open>min_timestamp\<close>; the entries already present keep their
  place and their timestamp, and the mapping so extended is handed to the callback.
\<close>

theorem C10_metadata_logs_at_min_timestamp:
  assumes "\<not> finalize_called e"
  shows "\<exists>e' r. onMetaDataLogsStorageTaskDone OK log_ids e =
             Inr (e', [OnLogsEnumerated (shard_idx e) (version e) r (maxBacklogDuration e)])
     \<and> (\<forall>l. map_of r l =
             (case map_of (result e) l of
                Some t \<Rightarrow> Some t
              | None \<Rightarrow> if l \<in> set log_ids then Some (min_timestamp e) else None))
     \<and> (\<exists>new. r = result e @ new
           \<and> (\<forall>x \<in> set new. fst x \<in> set log_ids \<and> snd x = min_timestamp e
                               \<and> fst x \<notin> fst ` set (result e)))"
proof -
  let ?r = "emplace_all log_ids (min_timestamp e) (result e)"
  have "onMetaDataLogsStorageTaskDone OK log_ids e =
          Inr (e\<lparr>result := [], finalize_called := True\<rparr>,
               [OnLogsEnumerated (shard_idx e) (version e) ?r (maxBacklogDuration e)])"
    using assms by (simp add: onMetaDataLogsStorageTaskDone_def finalize_def)
  moreover have "\<forall>l. map_of ?r l =
             (case map_of (result e) l of
                Some t \<Rightarrow> Some t
              | None \<Rightarrow> if l \<in> set log_ids then Some (min_timestamp e) else None)"
    by (simp add: map_of_emplace_all)
  moreover note emplace_all_new[of log_ids "min_timestamp e" "result e"]
  ultimately show ?thesis by blast
qed

text \<open>The theorem at the small configuration.\<close>

theorem C10_metadata_logs_at_min_timestamp_witness:
  "\<not> finalize_called (enum_legacy\<lparr>result := [(2, 1400000)]\<rparr>)
   \<and> (\<exists>e' r. onMetaDataLogsStorageTaskDone OK [8, 2] (enum_legacy\<lparr>result := [(2, 1400000)]\<rparr>) =
             Inr (e', [OnLogsEnumerated 0 5 r 0])
        \<and> map_of r 2 = Some 1400000 \<and> map_of r 8 = Some 0 \<and> map_of r 1 = None
        \<and> (\<exists>new. r = [(2, 1400000)] @ new))"
proof -
  have h: "\<not> finalize_called (enum_legacy\<lparr>result := [(2, 1400000)]\<rparr>)"
    by (simp add: enum_legacy_def enum_example_def)
  have v: "shard_idx (enum_legacy\<lparr>result := [(2, 1400000)]\<rparr>) = 0"
    "version (enum_legacy\<lparr>result := [(2, 1400000)]\<rparr>) = 5"
    "maxBacklogDuration (enum_legacy\<lparr>result := [(2, 1400000)]\<rparr>) = 0"
    "min_timestamp (enum_legacy\<lparr>result := [(2, 1400000)]\<rparr>) = 0"
    "result (enum_legacy\<lparr>result := [(2, 1400000)]\<rparr>) = [(2, 1400000)]"
    by (simp_all add: enum_legacy_def enum_example_def)
  from C10_metadata_logs_at_min_timestamp[OF h, of "[8, 2]"] obtain e' r where
    r: "onMetaDataLogsStorageTaskDone OK [8, 2] (enum_legacy\<lparr>result := [(2, 1400000)]\<rparr>) =
          Inr (e', [OnLogsEnumerated 0 5 r 0])"
       "\<forall>l. map_of r l =
             (case map_of [(2, 1400000)] l of
                Some t \<Rightarrow> Some t
              | None \<Rightarrow> if l \<in> set [8, 2] then Some 0 else None)"
       "\<exists>new. r = [(2, 1400000)] @ new"
    unfolding v by blast
  from r(2) have "map_of r 2 = Some 1400000" "map_of r 8 = Some 0" "map_of r 1 = None"
    by simp_all
  with r(1,3) h show ?thesis by blast
qed

section \<open>The claim about the trigger queue threshold\<close>




end
